theory Spec2Isabelle
  imports Main
begin

section \<open>Data model of the service log (src/main.py)\<close>

text \<open>
  A Python \<open>str\<close> is a sequence of Unicode code points; it is modelled as the list of
  its code points, so that equality of two texts is equality of the lists. The catalog
  and the two service categories are Cyrillic texts and are written out code point by
  code point.
\<close>

type_synonym str = "nat list"

record date =
  year :: nat
  month :: nat
  day :: nat

text \<open>The dataclass \<open>LogRecord\<close> (lines 26-31); its field \<open>type_\<close> is \<open>type'\<close> here.\<close>

record LogRecord =
  mileage :: int
  service_date :: date
  type' :: str
  service_description :: str

text \<open>
  \<open>generate_null_record\<close> (lines 33-34); the current day, which the source reads from
  the clock, is a parameter.
\<close>

definition generate_null_record :: "date \<Rightarrow> LogRecord" where
  "generate_null_record today =
     \<lparr>mileage = 0, service_date = today, type' = [], service_description = []\<rparr>"

text \<open>\<open>SERVICE_TYPE\<close> (lines 36-39): scheduled maintenance and unscheduled repair.\<close>

definition planned_service :: str where
  "planned_service = [1087, 1083, 1072, 1085, 1086, 1074, 1086, 1077, 32, 1058, 1054]"

definition unplanned_repair :: str where
  "unplanned_repair =
     [1074, 1085, 1077, 1087, 1083, 1072, 1085, 1086, 1074, 1099, 1081, 32,
      1088, 1077, 1084, 1086, 1085, 1090]"

definition SERVICE_TYPE :: "(nat \<times> str) list" where
  "SERVICE_TYPE = [(0, planned_service), (1, unplanned_repair)]"

text \<open>
  \<open>PLANNED_WORK_WITH_PERIOD\<close> (lines 41-54): the dictionary in its insertion order,
  each entry a work id with its description and its period in kilometres. Every
  description starts with the same word and a space; the descriptions of the works 0
  (engine oil), 1 (oil filter) and 2 (brake discs) have names of their own for the
  examples below.
\<close>

definition Zamena :: str where
  "Zamena = [1047, 1072, 1084, 1077, 1085, 1072, 32]"

definition engine_oil :: str where
  "engine_oil = Zamena @ [1084, 1072, 1089, 1083, 1072, 32, 1074, 32, 1076, 1074, 1080,
                          1075, 1072, 1090, 1077, 1083, 1077]"

definition oil_filter :: str where
  "oil_filter = Zamena @ [1084, 1072, 1089, 1083, 1103, 1085, 1086, 1075, 1086, 32, 1092,
                          1080, 1083, 1100, 1090, 1088, 1072]"

definition brake_discs :: str where
  "brake_discs = Zamena @ [1090, 1086, 1088, 1084, 1086, 1079, 1085, 1099, 1093, 32, 1076,
                           1080, 1089, 1082, 1086, 1074]"

definition PLANNED_WORK_WITH_PERIOD :: "(nat \<times> str \<times> int) list" where
  "PLANNED_WORK_WITH_PERIOD =
    [(0, engine_oil, 15000),
     (1, oil_filter, 15000),
     (2, brake_discs, 100000),
     (3, Zamena @ [1090, 1086, 1087, 1083, 1080, 1074, 1085, 1086, 1075, 1086, 32, 1092,
                   1080, 1083, 1100, 1090, 1088, 1072], 80000),
     (4, Zamena @ [1074, 1086, 1079, 1076, 1091, 1096, 1085, 1086, 1075, 1086, 32, 1092,
                   1080, 1083, 1100, 1090, 1088, 1072, 32, 1076, 1083, 1103, 32, 1076,
                   1074, 1080, 1075, 1072, 1090, 1077, 1083, 1103], 40000),
     (5, Zamena @ [1074, 1086, 1079, 1076, 1091, 1096, 1085, 1086, 1075, 1086, 32, 1092,
                   1080, 1083, 1100, 1090, 1088, 1072, 32, 1076, 1083, 1103, 32, 1089,
                   1072, 1083, 1086, 1085, 1072], 20000),
     (6, Zamena @ [1089, 1074, 1077, 1095, 1077, 1081, 32, 1079, 1072, 1078, 1080, 1075,
                   1072, 1085, 1080, 1103], 100000),
     (7, Zamena @ [1090, 1086, 1088, 1084, 1086, 1079, 1085, 1086, 1081, 32, 1078, 1080,
                   1076, 1082, 1086, 1089, 1090, 1080], 40000),
     (8, Zamena @ [1084, 1072, 1089, 1083, 1072, 32, 1074, 32, 1088, 1072, 1079, 1076,
                   1072, 1090, 1086, 1095, 1085, 1086, 1081, 32, 1082, 1086, 1088, 1086,
                   1073, 1082, 1077], 100000),
     (9, Zamena @ [1084, 1072, 1089, 1083, 1072, 32, 1074, 32, 1084, 1077, 1093, 1072,
                   1085, 1080, 1079, 1084, 1077, 32, 1079, 1072, 1076, 1085, 1077, 1075,
                   1086, 32, 1076, 1080, 1092, 1092, 1077, 1088, 1077, 1085, 1094, 1080,
                   1072, 1083, 1072], 100000),
     (10, Zamena @ [1086, 1093, 1083, 1072, 1078, 1076, 1072, 1102, 1097, 1077, 1081, 32,
                    1078, 1080, 1076, 1082, 1086, 1089, 1090, 1080, 32, 1076, 1074, 1080,
                    1075, 1072, 1090, 1077, 1083, 1103], 80000),
     (11, Zamena @ [1084, 1072, 1089, 1083, 1072, 32, 1074, 32, 1040, 1050, 1055, 1055],
      100000)]"

section \<open>Exceptions\<close>

text \<open>
  The exceptions the modelled code can raise. \<open>OperationalError\<close> is
  \<open>sqlite3.OperationalError\<close>, the only class \<open>display_service_status\<close> catches;
  \<open>DatabaseError\<close> stands for any other \<open>sqlite3\<close> error. \<open>OverflowError\<close> and
  \<open>UnicodeEncodeError\<close> are raised when a parameter cannot be bound (an integer
  outside 64 bits, a text with a surrogate code point) and when an integer is too large
  for a float. \<open>KeyError\<close> is a failed dictionary lookup.
\<close>

datatype error =
  OperationalError | DatabaseError | OverflowError | UnicodeEncodeError | KeyError

section \<open>The admission \<open>int(period * 0.1)\<close> (line 122)\<close>

text \<open>
  \<open>period * 0.1\<close> converts the integer to a binary64 float, rounding it to 53
  significant bits, ties to even, and raising \<open>OverflowError\<close> when the result would
  reach \<open>2 ^ 1024\<close>. It multiplies this float by the float nearest to one tenth, which
  is \<open>3602879701896397 / 2 ^ 55\<close>, and rounds the exact product in the same way;
  \<open>int\<close> then truncates toward zero. The magnitude of a float is kept as a pair
  \<open>(s, k)\<close> of value \<open>s * 2 ^ k\<close>; rounding and truncation are symmetric, so the sign
  of the period is put back at the end. The product of a non-zero integer with one tenth
  is neither subnormal nor larger than the converted integer.
\<close>

fun bit_length :: "nat \<Rightarrow> nat" where
  "bit_length n = (if n = 0 then 0 else Suc (bit_length (n div 2)))"

declare bit_length.simps [simp del]

definition round_half_even :: "nat \<Rightarrow> nat \<Rightarrow> nat" where
  "round_half_even n k =
     (let q = n div 2 ^ k; r = n mod 2 ^ k
      in if 2 ^ k < 2 * r \<or> (2 * r = 2 ^ k \<and> odd q) then q + 1 else q)"

definition binary64 :: "nat \<Rightarrow> nat \<times> nat" where
  "binary64 n = (let k = bit_length n - 53 in (round_half_even n k, k))"

definition float_of_int :: "nat \<Rightarrow> error + nat \<times> nat" where
  "float_of_int n =
     (let (s, k) = binary64 n
      in if 2 ^ 1024 \<le> s * 2 ^ k then Inl OverflowError else Inr (s, k))"

definition admission :: "int \<Rightarrow> error + int" where
  "admission period =
     (case float_of_int (nat \<bar>period\<bar>) of
        Inl e \<Rightarrow> Inl e
      | Inr (s1, k1) \<Rightarrow>
          let (s, k) = binary64 (s1 * 3602879701896397)
          in Inr (sgn period * int (s * 2 ^ (k + k1) div 2 ^ 55)))"

section \<open>The record store\<close>

text \<open>
  The table \<open>logs\<close> of \<open>CREATE_TABLE_SQL\<close> (lines 57-65): one row per service, with
  the columns \<open>id\<close>, \<open>mileage\<close>, \<open>date\<close>, \<open>type\<close> and \<open>description\<close>. The database
  also keeps the largest id it has handed out (\<open>AUTOINCREMENT\<close>).
\<close>

record log_row =
  col_id :: int
  col_mileage :: int
  col_date :: str
  col_type :: str
  col_description :: str

record database =
  logs :: "log_row list"
  last_id :: int

text \<open>
  Every method opens a connection of its own and makes its database calls in a fixed
  order. What can go wrong outside the program (the file cannot be opened, the table is
  locked or damaged) is a schedule of faults: \<open>f 0\<close> is the failure, if any, of opening
  the connection, and \<open>f k\<close> that of the \<open>k\<close>-th call made on it.
\<close>

type_synonym faults = "nat \<Rightarrow> error option"

definition no_faults :: faults where
  "no_faults = (\<lambda>k. None)"

text \<open>
  Binding a parameter fails for an integer outside the signed 64-bit range and for a
  text that has no UTF-8 encoding (a surrogate code point).
\<close>

definition int64 :: "int \<Rightarrow> bool" where
  "int64 i \<longleftrightarrow> - (2 ^ 63) \<le> i \<and> i < 2 ^ 63"

definition encodable :: "str \<Rightarrow> bool" where
  "encodable s \<longleftrightarrow> list_all (\<lambda>c. c < 55296 \<or> (57343 < c \<and> c < 1114112)) s"

text \<open>
  \<open>CREATE_RECORD_SQL\<close> (lines 67-70) with its four parameters, bound in this order.
  The new row gets the next id; the result is \<open>lastrowid\<close> and the changed database.
\<close>

definition CREATE_RECORD_SQL ::
  "faults \<Rightarrow> nat \<Rightarrow> int \<times> str \<times> str \<times> str \<Rightarrow> database \<Rightarrow> error + int \<times> database" where
  "CREATE_RECORD_SQL f k params db =
     (case params of (m, dt, t, d) \<Rightarrow>
        (case f k of
           Some e \<Rightarrow> Inl e
         | None \<Rightarrow>
             if \<not> int64 m then Inl OverflowError
             else if \<not> encodable dt \<or> \<not> encodable t \<or> \<not> encodable d
               then Inl UnicodeEncodeError
             else Inr (last_id db + 1,
                       db\<lparr>logs := logs db @
                             [\<lparr>col_id = last_id db + 1, col_mileage = m, col_date = dt,
                               col_type = t, col_description = d\<rparr>],
                          last_id := last_id db + 1\<rparr>)))"

text \<open>
  \<open>GET_LAST_SERVICE_SQL\<close> (lines 72-78): the mileages of the rows whose description
  equals the parameter, in descending order, at most one of them. The comparison of two
  texts is binary, so it is equality of the code points. The database is handed back as
  the statement leaves it.
\<close>

definition GET_LAST_SERVICE_SQL ::
  "faults \<Rightarrow> nat \<Rightarrow> str \<Rightarrow> database \<Rightarrow> error + int list \<times> database" where
  "GET_LAST_SERVICE_SQL f k d db =
     (case f k of
        Some e \<Rightarrow> Inl e
      | None \<Rightarrow>
          Inr (take 1 (rev (sort (map col_mileage
                 (filter (\<lambda>r. col_description r = d) (logs db))))), db))"

text \<open>\<open>cursor.fetchone()\<close>: the first row of the result, or \<open>None\<close>.\<close>

fun fetchone :: "'a list \<Rightarrow> 'a option" where
  "fetchone [] = None"
| "fetchone (x # xs) = Some x"

section \<open>\<open>CarLogger\<close>\<close>

text \<open>A Python \<open>dict\<close> keeps its keys in insertion order; \<open>d[k] = v\<close> replaces the value
  of a key that is present and appends the key otherwise.\<close>

fun setitem :: "('k \<times> 'v) list \<Rightarrow> 'k \<Rightarrow> 'v \<Rightarrow> ('k \<times> 'v) list" where
  "setitem [] k v = [(k, v)]"
| "setitem ((k', v') # d) k v =
     (if k' = k then (k', v) # d else (k', v') # setitem d k v)"

text \<open>
  The loop of \<open>check_necessary_service\<close> (lines 116-125) over the remaining catalog
  entries: \<open>k\<close> numbers the next database call, \<open>db\<close> is the database as the connection
  sees it and \<open>service_required\<close> the dictionary built so far. The progress display is
  not modelled.
\<close>

fun check_loop ::
  "faults \<Rightarrow> nat \<Rightarrow> int \<Rightarrow> (nat \<times> str \<times> int) list \<Rightarrow> database \<Rightarrow>
   (str \<times> int \<times> int) list \<Rightarrow> error + (str \<times> int \<times> int) list \<times> database" where
  "check_loop f k current_mileage [] db service_required = Inr (service_required, db)"
| "check_loop f k current_mileage ((work_id, work_desc, period) # rest) db service_required =
     (case GET_LAST_SERVICE_SQL f k work_desc db of
        Inl e \<Rightarrow> Inl e
      | Inr (rows, db') \<Rightarrow>
          let result = fetchone rows;
              last_mileage = (case result of Some m \<Rightarrow> m | None \<Rightarrow> 0);
              next_service = last_mileage + period
          in (case admission period of
                Inl e \<Rightarrow> Inl e
              | Inr adm \<Rightarrow>
                  check_loop f (Suc k) current_mileage rest db'
                    (if current_mileage \<ge> next_service - adm
                     then setitem service_required work_desc (last_mileage, next_service)
                     else service_required)))"

text \<open>
  \<open>check_necessary_service\<close> (lines 99-127). The connection is a context manager: it
  commits when the block ends normally and rolls back when an exception leaves it, so an
  exception leaves the database as it was.
\<close>

definition check_necessary_service ::
  "faults \<Rightarrow> database \<Rightarrow> int \<Rightarrow> (error + (str \<times> int \<times> int) list) \<times> database" where
  "check_necessary_service f db current_mileage =
     (case f 0 of
        Some e \<Rightarrow> (Inl e, db)
      | None \<Rightarrow>
          (case check_loop f 1 current_mileage PLANNED_WORK_WITH_PERIOD db [] of
             Inl e \<Rightarrow> (Inl e, db)
           | Inr (service_required, db') \<Rightarrow> (Inr service_required, db')))"

text \<open>
  \<open>date.isoformat()\<close>: \<open>YYYY-MM-DD\<close> with leading zeros, as code points. A Python
  date has a year from 1 to 9999.
\<close>

definition digits :: "nat \<Rightarrow> nat \<Rightarrow> str" where
  "digits w n = map (\<lambda>i. 48 + n div 10 ^ i mod 10) (rev [0..<w])"

definition isoformat :: "date \<Rightarrow> str" where
  "isoformat d = digits 4 (year d) @ [45] @ digits 2 (month d) @ [45] @ digits 2 (day d)"

text \<open>
  \<open>create_record\<close> (lines 129-143): the insert is call 1 of the connection and
  \<open>conn.commit()\<close> call 2. If either raises, the context manager rolls back.
\<close>

definition create_record ::
  "faults \<Rightarrow> database \<Rightarrow> LogRecord \<Rightarrow> (error + int) \<times> database" where
  "create_record f db record =
     (case f 0 of
        Some e \<Rightarrow> (Inl e, db)
      | None \<Rightarrow>
          (case CREATE_RECORD_SQL f 1
                  (mileage record, isoformat (service_date record), type' record,
                   service_description record) db of
             Inl e \<Rightarrow> (Inl e, db)
           | Inr (lastrowid, db') \<Rightarrow>
               (case f 2 of
                  Some e \<Rightarrow> (Inl e, db)
                | None \<Rightarrow> (Inr lastrowid, db'))))"

text \<open>
  \<open>display_service_status\<close> (lines 145-187). What it prints is one of three things:
  the error line of the \<open>except\<close> branch, the panel saying that no service is needed, or
  the table of the works that need service, one line per entry with its status,
  \<open>Required\<close> for the text of the \<open>if\<close> branch of line 178 and \<open>Soon\<close> for the other.
  The numbers of a line are kept as integers, without their formatting. Only
  \<open>sqlite3.OperationalError\<close> is caught; any other exception leaves the method.
\<close>

datatype status = Required | Soon

datatype printed =
  Error_line error
  | No_service_panel
  | Service_table "(str \<times> int \<times> int \<times> int \<times> status) list"

definition table_row :: "int \<Rightarrow> str \<times> int \<times> int \<Rightarrow> str \<times> int \<times> int \<times> int \<times> status" where
  "table_row current_mileage entry =
     (case entry of (work_desc, last_mileage, next_service) \<Rightarrow>
        (work_desc, last_mileage, next_service, current_mileage,
         if current_mileage \<ge> next_service then Required else Soon))"

definition display_service_status ::
  "faults \<Rightarrow> database \<Rightarrow> int \<Rightarrow> (error + printed) \<times> database" where
  "display_service_status f db current_mileage =
     (case check_necessary_service f db current_mileage of
        (Inl e, db') \<Rightarrow>
          if e = OperationalError then (Inr (Error_line e), db') else (Inl e, db')
      | (Inr service_required, db') \<Rightarrow>
          if service_required = [] then (Inr No_service_panel, db')
          else (Inr (Service_table (map (table_row current_mileage) service_required)), db'))"

text \<open>
  The branch of \<open>main\<close> that adds a record (lines 415-439). The answers to its prompts
  are parameters: the mileage, the service type, the number of the planned work and the
  free text of a repair. The prompts accept any integer as mileage and any text as
  description; the record goes to \<open>create_record\<close> as it is.
\<close>

definition getitem :: "('k \<times> 'v) list \<Rightarrow> 'k \<Rightarrow> error + 'v" where
  "getitem d k = (case map_of d k of None \<Rightarrow> Inl KeyError | Some v \<Rightarrow> Inr v)"

definition new_record :: "date \<Rightarrow> int \<Rightarrow> nat \<Rightarrow> nat \<Rightarrow> str \<Rightarrow> error + LogRecord" where
  "new_record today mileage_answer service_type work_type description_answer =
     (let r = (generate_null_record today)\<lparr>mileage := mileage_answer, service_date := today\<rparr>
      in case getitem SERVICE_TYPE service_type of
           Inl e \<Rightarrow> Inl e
         | Inr t \<Rightarrow>
             if service_type = 0
             then (case getitem PLANNED_WORK_WITH_PERIOD work_type of
                     Inl e \<Rightarrow> Inl e
                   | Inr (work, interval) \<Rightarrow> Inr (r\<lparr>type' := t, service_description := work\<rparr>))
             else Inr (r\<lparr>type' := t, service_description := description_answer\<rparr>))"

definition add_record ::
  "faults \<Rightarrow> database \<Rightarrow> date \<Rightarrow> int \<Rightarrow> nat \<Rightarrow> nat \<Rightarrow> str \<Rightarrow> (error + int) \<times> database" where
  "add_record f db today mileage_answer service_type work_type description_answer =
     (case new_record today mileage_answer service_type work_type description_answer of
        Inl e \<Rightarrow> (Inl e, db)
      | Inr r \<Rightarrow> create_record f db r)"

section \<open>The store contract and the due entries, as the specification words them\<close>

text \<open>
  \<open>find_latest_by_description\<close> is the specification's name for the query of lines
  118-119 on a connection of its own: the statement \<open>GET_LAST_SERVICE_SQL\<close> followed
  by \<open>fetchone\<close>.
\<close>

definition find_latest_by_description :: "faults \<Rightarrow> database \<Rightarrow> str \<Rightarrow> error + int option" where
  "find_latest_by_description f db d =
     (case f 0 of
        Some e \<Rightarrow> Inl e
      | None \<Rightarrow>
          (case GET_LAST_SERVICE_SQL f 1 d db of
             Inl e \<Rightarrow> Inl e
           | Inr (rows, db') \<Rightarrow> Inr (fetchone rows)))"

text \<open>The row that \<open>create_record\<close> appends for a record.\<close>

definition stored_row :: "database \<Rightarrow> LogRecord \<Rightarrow> log_row" where
  "stored_row db r =
     \<lparr>col_id = last_id db + 1, col_mileage = mileage r,
      col_date = isoformat (service_date r), col_type = type' r,
      col_description = service_description r\<rparr>"

text \<open>
  The stored records whose description equals a given one, and the mileage \<open>L\<close> of the
  specification: that of the highest-mileage such record, or 0 when there is none.
\<close>

definition matching :: "database \<Rightarrow> str \<Rightarrow> log_row list" where
  "matching db d = filter (\<lambda>r. col_description r = d) (logs db)"

definition highest_mileage :: "database \<Rightarrow> str \<Rightarrow> int" where
  "highest_mileage db d =
     (if matching db d = [] then 0 else Max (col_mileage ` set (matching db d)))"

text \<open>
  The inclusion test and the entry of one task, with the tolerance as the integer tenth
  of the period, and the mapping they give over the catalog.
\<close>

definition included :: "database \<Rightarrow> int \<Rightarrow> nat \<times> str \<times> int \<Rightarrow> bool" where
  "included db m task =
     (case task of (i, d, p) \<Rightarrow> m \<ge> highest_mileage db d + p - p div 10)"

definition entry :: "database \<Rightarrow> nat \<times> str \<times> int \<Rightarrow> str \<times> int \<times> int" where
  "entry db task =
     (case task of (i, d, p) \<Rightarrow> (d, highest_mileage db d, highest_mileage db d + p))"

definition due_entries :: "database \<Rightarrow> int \<Rightarrow> (str \<times> int \<times> int) list" where
  "due_entries db m = map (entry db) (filter (included db m) PLANNED_WORK_WITH_PERIOD)"

text \<open>The first fault among the \<open>n\<close> database calls numbered from \<open>k\<close>.\<close>

fun first_fault :: "faults \<Rightarrow> nat \<Rightarrow> nat \<Rightarrow> error option" where
  "first_fault f k 0 = None"
| "first_fault f k (Suc n) =
     (case f k of Some e \<Rightarrow> Some e | None \<Rightarrow> first_fault f (Suc k) n)"

section \<open>Stores and records of the examples\<close>

definition a_day :: date where
  "a_day = \<lparr>year = 2024, month = 5, day = 1\<rparr>"

definition empty_db :: database where
  "empty_db = \<lparr>logs = [], last_id = 0\<rparr>"

text \<open>Brake discs replaced at 50000 km, as scheduled maintenance.\<close>

definition discs_db :: database where
  "discs_db =
     \<lparr>logs = [\<lparr>col_id = 1, col_mileage = 50000, col_date = isoformat a_day,
               col_type = planned_service, col_description = brake_discs\<rparr>],
      last_id = 1\<rparr>"

text \<open>
  An unscheduled repair at 100000 km whose free text is, letter for letter, the catalog's
  description of the engine oil change.
\<close>

definition repair_db :: database where
  "repair_db =
     \<lparr>logs = [\<lparr>col_id = 1, col_mileage = 100000, col_date = isoformat a_day,
               col_type = unplanned_repair, col_description = engine_oil\<rparr>],
      last_id = 1\<rparr>"

text \<open>An unscheduled repair at 30000 km whose free text is no description of the catalog.\<close>

definition tyres_db :: database where
  "tyres_db =
     \<lparr>logs = [\<lparr>col_id = 1, col_mileage = 30000, col_date = isoformat a_day,
               col_type = unplanned_repair, col_description = [1064, 1080, 1085, 1099]\<rparr>],
      last_id = 1\<rparr>"

text \<open>A later record of brake discs at a lower mileage than the stored one.\<close>

definition discs_record :: LogRecord where
  "discs_record =
     \<lparr>mileage = 10000, service_date = a_day, type' = planned_service,
      service_description = brake_discs\<rparr>"

text \<open>A record with a negative mileage and an empty description.\<close>

definition invalid_record :: LogRecord where
  "invalid_record =
     \<lparr>mileage = - 5, service_date = a_day, type' = unplanned_repair,
      service_description = []\<rparr>"

text \<open>A fault schedule whose fifth call fails with an error other than the one caught.\<close>

definition fifth_fails :: faults where
  "fifth_fails = (\<lambda>k. if k = 5 then Some DatabaseError else None)"

text \<open>A connection that cannot be opened, with the error that is caught.\<close>

definition connect_fails :: faults where
  "connect_fails = (\<lambda>k. if k = 0 then Some OperationalError else None)"

text \<open>A fault schedule that fails only after the calls of one evaluation.\<close>

definition late_fault :: faults where
  "late_fault = (\<lambda>k. if k = 13 then Some OperationalError else None)"

section \<open>The query returns the highest matching mileage\<close>

lemma sorted_le_last: "sorted xs \<Longrightarrow> y \<in> set xs \<Longrightarrow> y \<le> last xs"
  by (induction xs) auto

lemma last_sort_Max:
  fixes ms :: "int list"
  assumes "ms \<noteq> []"
  shows "last (sort ms) = Max (set ms)"
proof -
  have ne: "sort ms \<noteq> []" using assms by (metis set_empty set_sort)
  have "Max (set (sort ms)) = last (sort ms)"
  proof (rule Max_eqI)
    show "finite (set (sort ms))" by simp
    show "\<And>y. y \<in> set (sort ms) \<Longrightarrow> y \<le> last (sort ms)"
      by (rule sorted_le_last) simp_all
    show "last (sort ms) \<in> set (sort ms)" using ne by (rule last_in_set)
  qed
  then show ?thesis by simp
qed

lemma fetchone_take: "fetchone (take 1 xs) = fetchone xs"
  by (cases xs) simp_all

lemma fetchone_descending:
  fixes ms :: "int list"
  shows "fetchone (rev (sort ms)) = (if ms = [] then None else Some (Max (set ms)))"
proof (cases "ms = []")
  case True
  then show ?thesis by simp
next
  case False
  then have ne: "sort ms \<noteq> []" by (metis set_empty set_sort)
  then obtain x xs where r: "rev (sort ms) = x # xs" by (cases "rev (sort ms)") auto
  then have "x = last (sort ms)" using ne by (metis list.sel(1) hd_rev)
  then show ?thesis using False r by (simp add: last_sort_Max)
qed

lemma select_rows:
  "GET_LAST_SERVICE_SQL f k d db =
     (case f k of Some e \<Rightarrow> Inl e
      | None \<Rightarrow> Inr (take 1 (rev (sort (map col_mileage (matching db d)))), db))"
  by (simp add: GET_LAST_SERVICE_SQL_def matching_def split: option.splits)

lemma fetchone_matching:
  "fetchone (take 1 (rev (sort (map col_mileage (matching db d))))) =
     (if matching db d = [] then None else Some (Max (col_mileage ` set (matching db d))))"
  unfolding fetchone_take fetchone_descending by simp

lemma last_mileage_highest:
  "(case fetchone (take 1 (rev (sort (map col_mileage (matching db d))))) of
      Some m \<Rightarrow> m | None \<Rightarrow> 0) = highest_mileage db d"
  unfolding fetchone_matching by (simp add: highest_mileage_def)

subsection \<open>The loop over the catalog\<close>

lemma setitem_fresh: "k \<notin> fst ` set d \<Longrightarrow> setitem d k v = d @ [(k, v)]"
  by (induction d) auto

lemma first_fault_None: "first_fault f k n = None \<longleftrightarrow> (\<forall>j<n. f (k + j) = None)"
proof (induction n arbitrary: k)
  case 0
  show ?case by simp
next
  case (Suc n)
  show ?case
  proof (cases "f k")
    case None
    have "(\<forall>j<Suc n. f (k + j) = None) \<longleftrightarrow> (\<forall>j<n. f (Suc k + j) = None)"
    proof
      assume a: "\<forall>j<Suc n. f (k + j) = None"
      show "\<forall>j<n. f (Suc k + j) = None"
      proof (intro allI impI)
        fix j assume "j < n"
        then have "f (k + Suc j) = None" using a by blast
        then show "f (Suc k + j) = None" by simp
      qed
    next
      assume a: "\<forall>j<n. f (Suc k + j) = None"
      show "\<forall>j<Suc n. f (k + j) = None"
      proof (intro allI impI)
        fix j assume j: "j < Suc n"
        show "f (k + j) = None"
        proof (cases j)
          case 0
          then show ?thesis using None by simp
        next
          case (Suc i)
          then have "f (Suc k + i) = None" using a j by simp
          then show ?thesis using Suc by simp
        qed
      qed
    qed
    then show ?thesis using None Suc.IH [of "Suc k"] by simp
  next
    case (Some e)
    then have "\<not> (\<forall>j<Suc n. f (k + j) = None)" by (auto intro: exI [of _ 0])
    then show ?thesis using Some by simp
  qed
qed

lemma first_fault_Some: "first_fault f k n = Some e \<Longrightarrow> \<exists>j<n. f (k + j) = Some e"
proof (induction n arbitrary: k)
  case 0
  then show ?case by simp
next
  case (Suc n)
  show ?case
  proof (cases "f k")
    case None
    then have "first_fault f (Suc k) n = Some e" using Suc.prems by simp
    then obtain j where "j < n" "f (Suc k + j) = Some e" using Suc.IH by blast
    then have "Suc j < Suc n \<and> f (k + Suc j) = Some e" by simp
    then show ?thesis by blast
  next
    case (Some e')
    then have "e' = e" using Suc.prems by simp
    then have "0 < Suc n \<and> f (k + 0) = Some e" using Some by simp
    then show ?thesis by blast
  qed
qed

lemma check_loop_eq:
  assumes "\<forall>t\<in>set cat. admission (snd (snd t)) = Inr (snd (snd t) div 10)"
    and "distinct (map (\<lambda>t. fst (snd t)) cat)"
    and "fst ` set acc \<inter> (\<lambda>t. fst (snd t)) ` set cat = {}"
  shows "check_loop f k m cat db acc =
     (case first_fault f k (length cat) of
        Some e \<Rightarrow> Inl e
      | None \<Rightarrow> Inr (acc @ map (entry db) (filter (included db m) cat), db))"
  using assms
proof (induction cat arbitrary: k acc)
  case Nil
  show ?case by simp
next
  case (Cons t cat)
  obtain i d p where t: "t = (i, d, p)" by (cases t) auto
  have adm: "admission p = Inr (p div 10)" using Cons.prems(1) t by simp
  have fresh: "d \<notin> fst ` set acc" using Cons.prems(3) t by auto
  show ?case
  proof (cases "f k")
    case (Some e)
    then show ?thesis by (simp add: t select_rows)
  next
    case None
    let ?L = "highest_mileage db d"
    let ?acc = "if m \<ge> ?L + p - p div 10 then setitem acc d (?L, ?L + p) else acc"
    have step: "check_loop f k m (t # cat) db acc = check_loop f (Suc k) m cat db ?acc"
      unfolding t check_loop.simps select_rows
      by (simp only: None option.case sum.case prod.case Let_def last_mileage_highest adm)
    have acc': "?acc = acc @ map (entry db) (filter (included db m) [t])"
      by (simp add: t included_def entry_def setitem_fresh [OF fresh])
    have disj: "fst ` set ?acc \<inter> (\<lambda>t. fst (snd t)) ` set cat = {}"
      using Cons.prems(2,3) t by (auto simp: setitem_fresh [OF fresh])
    have "check_loop f (Suc k) m cat db ?acc =
        (case first_fault f (Suc k) (length cat) of
           Some e \<Rightarrow> Inl e
         | None \<Rightarrow> Inr (?acc @ map (entry db) (filter (included db m) cat), db))"
      using Cons.prems(1,2) disj by (intro Cons.IH) simp_all
    then show ?thesis
      unfolding step using None by (simp only: acc') (simp split: option.splits)
  qed
qed

subsection \<open>The catalog\<close>

text \<open>
  The tolerance of a period below \<open>2 ^ 51\<close> is its integer tenth: the period converts
  to a float exactly, the product with the float of one tenth exceeds the true tenth by
  the factor \<open>1 + 2 ^ -54\<close>, and the rounding to 53 bits moves it by at most one unit of
  the last place, which is too little to reach the next integer.
\<close>

lemma bit_length_pos: "0 < n \<Longrightarrow> bit_length n = Suc (bit_length (n div 2))"
  by (subst bit_length.simps) simp

lemma bit_length_0: "bit_length 0 = 0"
  by (subst bit_length.simps) simp

lemma bit_length_bounds: "0 < n \<Longrightarrow> 2 ^ (bit_length n - 1) \<le> n \<and> n < 2 ^ bit_length n"
proof (induction n rule: bit_length.induct)
  case (1 n)
  have bl: "bit_length n = Suc (bit_length (n div 2))"
    using "1.prems" by (rule bit_length_pos)
  show ?case
  proof (cases "n div 2 = 0")
    case True
    then have "n = 1" using "1.prems" by linarith
    then show ?thesis using bl True by (simp add: bit_length_0)
  next
    case False
    then have pos: "0 < n div 2" by simp
    let ?b = "bit_length (n div 2)"
    have ih: "2 ^ (?b - 1) \<le> n div 2 \<and> n div 2 < 2 ^ ?b"
      using "1.IH" "1.prems" pos by simp
    have "?b = Suc (?b - 1)" using bit_length_pos [OF pos] by simp
    then have p: "(2::nat) ^ ?b = 2 * 2 ^ (?b - 1)" by (metis power_Suc)
    have "2 ^ ?b \<le> n" using ih p by linarith
    moreover have "n < 2 * 2 ^ ?b" using ih by linarith
    ultimately show ?thesis using bl by simp
  qed
qed

lemma round_half_even_bounds:
  "n div 2 ^ k \<le> round_half_even n k \<and> round_half_even n k \<le> n div 2 ^ k + 1"
  by (simp add: round_half_even_def Let_def)

lemma round_half_even_0: "round_half_even n 0 = n"
  by (simp add: round_half_even_def)

lemma bit_length_le:
  assumes "n < 2 ^ b"
  shows "bit_length n \<le> b"
proof (cases "n = 0")
  case True
  then show ?thesis by (simp add: bit_length_0)
next
  case False
  then have "2 ^ (bit_length n - 1) \<le> n" using bit_length_bounds by simp
  then have "(2::nat) ^ (bit_length n - 1) < 2 ^ b" using assms by linarith
  then have "bit_length n - 1 < b" by simp
  then show ?thesis by linarith
qed

lemma float_of_int_exact:
  assumes "n < 2 ^ 53"
  shows "float_of_int n = Inr (n, 0)"
proof -
  have "bit_length n - 53 = 0" using bit_length_le [OF assms] by simp
  then have b: "binary64 n = (n, 0)" by (simp add: binary64_def round_half_even_0)
  have "n < 2 ^ 1024"
  proof -
    have "(2::nat) ^ 53 \<le> 2 ^ 1024" by (rule power_increasing) simp_all
    then show ?thesis using assms by linarith
  qed
  then show ?thesis by (simp add: float_of_int_def b)
qed

lemma tenth_arith:
  fixes n p s T J :: nat
  assumes n: "10 * n = p * 36028797018963970"
    and T: "0 < T" "T \<le> p" "T * J = 36028797018963968"
    and s: "n div T \<le> s" "s \<le> n div T + 1"
    and p: "p < 2251799813685248"
  shows "s * T div 36028797018963968 = p div 10"
proof -
  define q where "q = p div 10"
  define X where "X = s * T"
  have q: "10 * q \<le> p" "p < 10 * q + 10" unfolding q_def by presburger+
  have qn: "q * 36028797018963968 \<le> n" using q(1) n by linarith
  have e: "q * J * T = q * 36028797018963968" using T(3) by (simp add: mult.assoc mult.commute)
  have "q * J * T \<le> n" unfolding e by (rule qn)
  then have "q * J \<le> n div T" using T(1) by (simp add: less_eq_div_iff_mult_less_eq)
  then have "q * J \<le> s" using s(1) by linarith
  then have "q * J * T \<le> s * T" by (rule mult_le_mono1)
  then have low: "q * 36028797018963968 \<le> X"
    unfolding X_def e [symmetric] .
  have "s * T \<le> (n div T + 1) * T" using s(2) by (rule mult_le_mono1)
  also have "\<dots> = n div T * T + T" by (simp add: add_mult_distrib)
  also have "\<dots> \<le> n + T" by simp
  finally have "X \<le> n + p" using T(2) unfolding X_def by linarith
  then have "X < q * 36028797018963968 + 36028797018963968" using n q p by linarith
  then have up: "X < (q + 1) * 36028797018963968" by simp
  have "X div 36028797018963968 = q"
  proof (rule div_nat_eqI)
    show "36028797018963968 * q \<le> X" using low by (simp add: mult.commute)
    show "X < 36028797018963968 * Suc q" using up by (simp add: mult.commute)
  qed
  then show ?thesis unfolding X_def q_def .
qed

lemma product_tenth:
  assumes "p < 2 ^ 51"
  shows "(case binary64 (p * 3602879701896397) of (s, k) \<Rightarrow> s * 2 ^ k div 2 ^ 55) = p div 10"
proof (cases "p = 0")
  case True
  then show ?thesis by (simp add: binary64_def bit_length_0 round_half_even_0)
next
  case False
  define n where "n = p * 3602879701896397"
  define k where "k = bit_length n - 53"
  define T :: nat where "T = 2 ^ k"
  define s where "s = round_half_even n k"
  have ppos: "0 < p" using False by simp
  have npos: "0 < n" using ppos by (simp add: n_def)
  have p51: "p < 2251799813685248" using assms by simp
  have c10: "10 * n = p * 36028797018963970" by (simp add: n_def)
  have Tpos: "0 < T" by (simp add: T_def)
  have "n < 2251799813685248 * 4503599627370496"
    unfolding n_def using p51 by (intro mult_strict_mono) simp_all
  then have "n < 2 ^ 103" by simp
  then have "bit_length n \<le> 103" by (rule bit_length_le)
  then have k50: "k \<le> 55" by (simp add: k_def)
  have Tp: "T \<le> p"
  proof (cases "k = 0")
    case True
    then show ?thesis using ppos by (simp add: T_def)
  next
    case False
    then have "bit_length n - 1 = k + 52" by (simp add: k_def)
    moreover have "2 ^ (bit_length n - 1) \<le> n" using bit_length_bounds [OF npos] by blast
    ultimately have "2 ^ (k + 52) \<le> n" by simp
    then have "T * 2 ^ 52 \<le> n" by (simp only: power_add T_def)
    then have "T * 4503599627370496 \<le> n" by simp
    also have "n \<le> p * 4503599627370496" by (simp add: n_def)
    finally show ?thesis by simp
  qed
  have "(2::nat) ^ 55 = 2 ^ (k + (55 - k))" using k50 by simp
  then have "(2::nat) ^ 55 = T * 2 ^ (55 - k)" by (simp only: power_add T_def)
  then have TJ: "T * 2 ^ (55 - k) = 36028797018963968" by simp
  have "s * T div 36028797018963968 = p div 10"
    using c10 Tpos Tp TJ _ _ p51
  proof (rule tenth_arith)
    show "n div T \<le> s" "s \<le> n div T + 1"
      using round_half_even_bounds [of n k] by (simp_all add: s_def T_def)
  qed
  then show ?thesis by (simp add: binary64_def Let_def n_def k_def s_def T_def)
qed

lemma admission_tenth:
  assumes "0 \<le> period" and "period < 2 ^ 51"
  shows "admission period = Inr (period div 10)"
proof -
  define p where "p = nat period"
  have p: "p < 2 ^ 51" using assms by (simp add: p_def nat_less_iff)
  have "(2::nat) ^ 51 \<le> 2 ^ 53" by (rule power_increasing) simp_all
  then have "p < 2 ^ 53" using p by linarith
  then have f: "float_of_int (nat \<bar>period\<bar>) = Inr (p, 0)"
    using assms(1) by (simp add: float_of_int_exact p_def)
  have d: "int (p div 10) = period div 10"
    using assms(1) by (simp add: p_def zdiv_int)
  show ?thesis
  proof (cases "period = 0")
    case True
    then show ?thesis
      using f product_tenth [OF p] by (simp add: admission_def p_def split: prod.splits)
  next
    case False
    then have "sgn period = 1" using assms(1) by simp
    then show ?thesis
      using f product_tenth [OF p] d by (simp add: admission_def split: prod.splits)
  qed
qed

text \<open>The model evaluated on the first period of the catalog.\<close>

lemma admission_15000: "admission 15000 = Inr 1500"
proof -
  have a: "float_of_int 15000 = Inr (15000, 0)"
    by (simp add: float_of_int_def binary64_def round_half_even_def bit_length.simps)
  have b: "binary64 54043195528445955000 = (6597069766656000, 13)"
    by (simp add: binary64_def round_half_even_def bit_length.simps Let_def)
  show ?thesis
    by (simp add: admission_def a b)
qed

lemma admission_PLANNED:
  "\<forall>t\<in>set PLANNED_WORK_WITH_PERIOD. admission (snd (snd t)) = Inr (snd (snd t) div 10)"
  by (simp add: PLANNED_WORK_WITH_PERIOD_def admission_tenth)

lemma positive_PLANNED: "\<forall>t\<in>set PLANNED_WORK_WITH_PERIOD. 0 < snd (snd t)"
  by (simp add: PLANNED_WORK_WITH_PERIOD_def)

lemma distinct_PLANNED: "distinct (map (\<lambda>t. fst (snd t)) PLANNED_WORK_WITH_PERIOD)"
  by (simp add: PLANNED_WORK_WITH_PERIOD_def engine_oil_def oil_filter_def brake_discs_def
      Zamena_def)

lemma length_PLANNED: "length PLANNED_WORK_WITH_PERIOD = 12"
  by (simp add: PLANNED_WORK_WITH_PERIOD_def)

lemma first_fault_connect:
  "first_fault f 0 13 = (case f 0 of Some e \<Rightarrow> Some e | None \<Rightarrow> first_fault f 1 12)"
proof -
  have "first_fault f 0 (Suc 12) =
      (case f 0 of Some e \<Rightarrow> Some e | None \<Rightarrow> first_fault f (Suc 0) 12)"
    by (rule first_fault.simps)
  then show ?thesis by (simp split: option.splits)
qed

lemma check_necessary_service_eq:
  "check_necessary_service f db m =
     (case first_fault f 0 13 of
        Some e \<Rightarrow> (Inl e, db)
      | None \<Rightarrow> (Inr (due_entries db m), db))"
proof -
  have "check_loop f 1 m PLANNED_WORK_WITH_PERIOD db [] =
     (case first_fault f 1 12 of
        Some e \<Rightarrow> Inl e
      | None \<Rightarrow> Inr (due_entries db m, db))"
    using check_loop_eq [OF admission_PLANNED distinct_PLANNED, of "[]" f 1 m db]
    by (simp add: length_PLANNED due_entries_def split: option.splits)
  then show ?thesis
    unfolding check_necessary_service_def first_fault_connect
    by (simp split: option.splits)
qed

lemma no_fault_13: "first_fault f 0 13 = None \<longleftrightarrow> (\<forall>k<13. f k = None)"
  using first_fault_None [of f 0 13] by simp

lemma fault_13:
  assumes "k < 13" and "f k = Some e"
  shows "\<exists>e'. first_fault f 0 13 = Some e'"
proof (cases "first_fault f 0 13")
  case None
  then have "f k = None" using assms(1) no_fault_13 by blast
  then show ?thesis using assms(2) by simp
next
  case (Some e')
  then show ?thesis by blast
qed

lemma entry_tuple:
  "entry db (i, d, p) = (d, highest_mileage db d, highest_mileage db d + p)"
  by (simp add: entry_def)

lemma included_tuple:
  "included db m (i, d, p) \<longleftrightarrow> m \<ge> highest_mileage db d + p - p div 10"
  by (simp add: included_def)

lemma fst_entry: "fst (entry db t) = fst (snd t)"
  by (cases t) (simp add: entry_def)

lemma keys_entries: "fst ` set (map (entry db) ts) = (\<lambda>t. fst (snd t)) ` set ts"
  by (induction ts) (simp_all add: fst_entry)

lemma map_of_entries:
  assumes "distinct (map (\<lambda>t. fst (snd t)) cat)" and "(i, d, p) \<in> set cat"
  shows "map_of (map (entry db) (filter (included db m) cat)) d =
     (if included db m (i, d, p) then Some (snd (entry db (i, d, p))) else None)"
  using assms
proof (induction cat)
  case Nil
  then show ?case by simp
next
  case (Cons t cat)
  obtain i' d' p' where t: "t = (i', d', p')" by (cases t) auto
  show ?case
  proof (cases "t = (i, d, p)")
    case True
    have "d \<notin> (\<lambda>t. fst (snd t)) ` set cat" using Cons.prems(1) True by simp
    then have "d \<notin> fst ` set (map (entry db) (filter (included db m) cat))"
      unfolding keys_entries by auto
    then have "map_of (map (entry db) (filter (included db m) cat)) d = None"
      by (simp add: map_of_eq_None_iff)
    then show ?thesis using True by (simp add: entry_tuple)
  next
    case False
    then have mem: "(i, d, p) \<in> set cat" using Cons.prems(2) by simp
    then have "d \<in> (\<lambda>t. fst (snd t)) ` set cat" by force
    then have "d' \<noteq> d" using Cons.prems(1) t by auto
    moreover have "distinct (map (\<lambda>t. fst (snd t)) cat)" using Cons.prems(1) by simp
    ultimately show ?thesis using Cons.IH mem t by (simp add: entry_tuple)
  qed
qed

subsection \<open>Consequences for one evaluation\<close>

lemma due_entries_empty_13500:
  "due_entries empty_db 13500 = [(engine_oil, 0, 15000), (oil_filter, 0, 15000)]"
  by (simp add: due_entries_def PLANNED_WORK_WITH_PERIOD_def included_tuple entry_tuple
      highest_mileage_def matching_def empty_db_def)

lemma due_entries_repair_13500:
  "due_entries repair_db 13500 = [(oil_filter, 0, 15000)]"
  by (simp add: due_entries_def PLANNED_WORK_WITH_PERIOD_def included_tuple entry_tuple
      highest_mileage_def matching_def repair_db_def engine_oil_def oil_filter_def
      brake_discs_def Zamena_def)

lemma first_fault_no_faults: "first_fault no_faults 0 13 = None"
  by (simp add: no_fault_13 no_faults_def)

lemma check_loop_database:
  "check_loop f k m cat db acc = Inr (sr, db') \<Longrightarrow> db' = db"
proof (induction cat arbitrary: k acc)
  case Nil
  then show ?case by simp
next
  case (Cons t cat)
  obtain i d p where t: "t = (i, d, p)" by (cases t) auto
  show ?case
    using Cons.prems Cons.IH
    by (auto simp: t GET_LAST_SERVICE_SQL_def Let_def split: option.splits sum.splits)
qed

lemma check_necessary_service_Inr:
  assumes "check_necessary_service f db m = (Inr sr, db')"
  shows "first_fault f 0 13 = None \<and> sr = due_entries db m \<and> db' = db"
  using assms unfolding check_necessary_service_eq by (auto split: option.splits)

lemma included_mono: "m1 \<le> m2 \<Longrightarrow> included db m1 t \<Longrightarrow> included db m2 t"
  by (cases t) (simp add: included_def)

lemma due_entries_mono:
  assumes "m1 \<le> m2"
  shows "set (due_entries db m1) \<subseteq> set (due_entries db m2)"
  using included_mono [OF assms] by (auto simp: due_entries_def)

lemma same_description_same_task:
  assumes "(i, d, p) \<in> set PLANNED_WORK_WITH_PERIOD"
    and "(i', d, p') \<in> set PLANNED_WORK_WITH_PERIOD"
  shows "i' = i \<and> p' = p"
proof -
  have inj: "inj_on (\<lambda>t. fst (snd t)) (set PLANNED_WORK_WITH_PERIOD)"
    using distinct_PLANNED by (simp add: distinct_map)
  have "(i', d, p') = (i, d, p)"
    by (rule inj_onD [OF inj _ assms(2) assms(1)]) simp
  then show ?thesis by simp
qed

lemma due_entries_member:
  assumes "(d, l, n) \<in> set (due_entries db m)"
    and "(i, d, p) \<in> set PLANNED_WORK_WITH_PERIOD"
  shows "l = highest_mileage db d \<and> n = l + p \<and> m \<ge> n - p div 10"
proof -
  obtain t where t: "t \<in> set PLANNED_WORK_WITH_PERIOD" "included db m t" "entry db t = (d, l, n)"
    using assms(1) by (auto simp: due_entries_def)
  obtain i' d' p' where t': "t = (i', d', p')" by (cases t) auto
  have d': "d' = d" using t(3) t' by (simp add: entry_tuple)
  then have "p' = p" using same_description_same_task [OF assms(2)] t(1) t' by blast
  then show ?thesis using t(2,3) t' d' by (simp add: entry_tuple included_tuple)
qed

subsection \<open>Appending a record\<close>

lemma encodable_digits: "encodable (digits w n)"
proof -
  have "\<And>i. 48 + n div 10 ^ i mod 10 < (55296::nat)"
  proof -
    fix i
    have "n div 10 ^ i mod 10 < 10" by simp
    then show "48 + n div 10 ^ i mod 10 < 55296" by linarith
  qed
  then show ?thesis by (simp add: encodable_def digits_def list_all_iff)
qed

lemma encodable_append: "encodable (xs @ ys) \<longleftrightarrow> encodable xs \<and> encodable ys"
  by (simp add: encodable_def)

lemma encodable_Cons:
  "encodable (c # s) \<longleftrightarrow> (c < 55296 \<or> (57343 < c \<and> c < 1114112)) \<and> encodable s"
  by (simp add: encodable_def)

lemma encodable_isoformat: "encodable (isoformat d)"
  by (simp add: isoformat_def encodable_append encodable_Cons encodable_digits)

lemma create_record_eq:
  assumes "\<forall>k<3. f k = None"
    and "int64 (mileage r)" and "encodable (type' r)" and "encodable (service_description r)"
  shows "create_record f db r =
     (Inr (last_id db + 1),
      db\<lparr>logs := logs db @ [stored_row db r], last_id := last_id db + 1\<rparr>)"
proof -
  have "f 0 = None" "f 1 = None" "f 2 = None" using assms(1) by simp_all
  then show ?thesis
    using assms(2-4)
    by (simp add: create_record_def CREATE_RECORD_SQL_def encodable_isoformat stored_row_def)
qed

lemma find_latest_by_description_eq:
  assumes "\<forall>k<2. g k = None"
  shows "find_latest_by_description g db d =
     Inr (if matching db d = [] then None else Some (Max (col_mileage ` set (matching db d))))"
proof -
  have "g 0 = None" "g 1 = None" using assms by simp_all
  then show ?thesis
    unfolding find_latest_by_description_def select_rows
    by (simp only: option.case sum.case prod.case fetchone_matching)
qed

lemma matching_append:
  "matching (db\<lparr>logs := logs db @ [row], last_id := n\<rparr>) d =
     matching db d @ (if col_description row = d then [row] else [])"
  by (simp add: matching_def)

subsection \<open>Stores that agree on the catalog's descriptions\<close>

lemma highest_mileage_cong:
  "matching db1 d = matching db2 d \<Longrightarrow> highest_mileage db1 d = highest_mileage db2 d"
  by (simp add: highest_mileage_def)

lemma due_entries_cong:
  assumes "\<forall>t\<in>set PLANNED_WORK_WITH_PERIOD. matching db1 (fst (snd t)) = matching db2 (fst (snd t))"
  shows "due_entries db1 m = due_entries db2 m"
proof -
  have h: "\<forall>t\<in>set PLANNED_WORK_WITH_PERIOD.
      highest_mileage db1 (fst (snd t)) = highest_mileage db2 (fst (snd t))"
    using assms highest_mileage_cong by blast
  have i: "\<forall>t\<in>set PLANNED_WORK_WITH_PERIOD. included db1 m t = included db2 m t"
    using h by (auto simp: included_def)
  have e: "\<forall>t\<in>set PLANNED_WORK_WITH_PERIOD. entry db1 t = entry db2 t"
    using h by (auto simp: entry_def)
  have "filter (included db1 m) PLANNED_WORK_WITH_PERIOD =
      filter (included db2 m) PLANNED_WORK_WITH_PERIOD"
    using i by (intro filter_cong) auto
  moreover have "map (entry db1) (filter (included db2 m) PLANNED_WORK_WITH_PERIOD) =
      map (entry db2) (filter (included db2 m) PLANNED_WORK_WITH_PERIOD)"
    using e by (intro map_cong) auto
  ultimately show ?thesis by (simp add: due_entries_def)
qed

subsection \<open>The float product beyond the catalog\<close>

text \<open>
  The tolerance is a float product. On the periods of the catalog it is the integer
  tenth; on a period near \<open>9 * 10 ^ 15\<close> the rounding of the product carries it one
  above the integer tenth.
\<close>

lemma admission_beyond_catalog: "admission 9000000000000009 = Inr 900000000000001"
proof -
  have a: "float_of_int 9000000000000009 = Inr (9000000000000009, 0)"
    by (simp add: float_of_int_def binary64_def round_half_even_def bit_length.simps)
  have b: "binary64 32425917317067605425917317067573 = (7200000000000008, 52)"
    by (simp add: binary64_def round_half_even_def bit_length.simps Let_def)
  show ?thesis
    by (simp add: admission_def a b)
qed

section \<open>The claims\<close>

text \<open>
  C1. When no database call fails, \<open>check_necessary_service\<close> returns a mapping, and
  for every task of the catalog and every current mileage the mapping has the task's
  description exactly when the mileage is at least \<open>L + period - period div 10\<close>,
  where \<open>L\<close> is the highest mileage stored under that description, or 0; the value of
  the entry is then \<open>(L, L + period)\<close>.
\<close>

theorem check_necessary_service_includes_iff:
  assumes "\<forall>k<13. f k = None"
    and "(work_id, work_desc, period) \<in> set PLANNED_WORK_WITH_PERIOD"
  shows "\<exists>service_required.
     check_necessary_service f db current_mileage = (Inr service_required, db) \<and>
     map_of service_required work_desc =
       (if current_mileage \<ge> highest_mileage db work_desc + period - period div 10
        then Some (highest_mileage db work_desc, highest_mileage db work_desc + period)
        else None)"
proof -
  have "first_fault f 0 13 = None" using assms(1) by (simp only: no_fault_13)
  then have "check_necessary_service f db current_mileage = (Inr (due_entries db current_mileage), db)"
    by (simp add: check_necessary_service_eq)
  moreover have "map_of (due_entries db current_mileage) work_desc =
       (if current_mileage \<ge> highest_mileage db work_desc + period - period div 10
        then Some (highest_mileage db work_desc, highest_mileage db work_desc + period)
        else None)"
    unfolding due_entries_def map_of_entries [OF distinct_PLANNED assms(2)]
    by (simp add: included_tuple entry_tuple)
  ultimately show ?thesis by blast
qed

theorem check_necessary_service_includes_iff_witness:
  "(2, brake_discs, 100000) \<in> set PLANNED_WORK_WITH_PERIOD \<and>
   highest_mileage discs_db brake_discs = 50000 \<and>
   (\<exists>service_required.
      check_necessary_service no_faults discs_db 140000 = (Inr service_required, discs_db) \<and>
      map_of service_required brake_discs = Some (50000, 150000))"
proof -
  have h1: "\<forall>k<13. no_faults k = None" by (simp add: no_faults_def)
  have h2: "(2, brake_discs, 100000) \<in> set PLANNED_WORK_WITH_PERIOD"
    by (simp add: PLANNED_WORK_WITH_PERIOD_def)
  have L: "highest_mileage discs_db brake_discs = 50000"
    by (simp add: highest_mileage_def matching_def discs_db_def)
  show ?thesis
    using check_necessary_service_includes_iff [OF h1 h2, of discs_db 140000] h2 L
    by simp
qed

text \<open>
  C2, amended. When the append succeeds (no fault, a mileage within 64 bits, encodable
  texts), \<open>find_latest_by_description\<close> with the record's description returns the
  highest mileage among the record's own and those already stored under that
  description. It returns the record's mileage exactly when no stored record of that
  description has a higher mileage.
\<close>

theorem create_record_then_find_latest:
  assumes "\<forall>k<3. f k = None" and "\<forall>k<2. g k = None"
    and "int64 (mileage r)" and "encodable (type' r)" and "encodable (service_description r)"
  shows "\<exists>rid db'. create_record f db r = (Inr rid, db') \<and>
     find_latest_by_description g db' (service_description r) =
       Inr (Some (Max (insert (mileage r)
                    (col_mileage ` set (matching db (service_description r)))))) \<and>
     (find_latest_by_description g db' (service_description r) = Inr (Some (mileage r)) \<longleftrightarrow>
        (\<forall>x\<in>set (matching db (service_description r)). col_mileage x \<le> mileage r))"
proof -
  let ?d = "service_description r"
  let ?db' = "db\<lparr>logs := logs db @ [stored_row db r], last_id := last_id db + 1\<rparr>"
  let ?M = "col_mileage ` set (matching db ?d)"
  have c: "create_record f db r = (Inr (last_id db + 1), ?db')"
    by (rule create_record_eq [OF assms(1,3,4,5)])
  have m: "matching ?db' ?d = matching db ?d @ [stored_row db r]"
    by (simp add: matching_append stored_row_def)
  have img: "col_mileage ` set (matching ?db' ?d) = insert (mileage r) ?M"
    unfolding m by (simp add: stored_row_def)
  have q: "find_latest_by_description g ?db' ?d = Inr (Some (Max (insert (mileage r) ?M)))"
    unfolding find_latest_by_description_eq [OF assms(2)] img using m by simp
  have fin: "finite ?M" by simp
  have "Max (insert (mileage r) ?M) = mileage r \<longleftrightarrow> (\<forall>y\<in>?M. y \<le> mileage r)"
  proof
    assume e: "Max (insert (mileage r) ?M) = mileage r"
    show "\<forall>y\<in>?M. y \<le> mileage r"
    proof
      fix y assume "y \<in> ?M"
      then have "y \<le> Max (insert (mileage r) ?M)" using fin by (intro Max_ge) simp_all
      then show "y \<le> mileage r" using e by simp
    qed
  next
    assume "\<forall>y\<in>?M. y \<le> mileage r"
    then show "Max (insert (mileage r) ?M) = mileage r"
      using fin by (intro Max_eqI) auto
  qed
  then have "find_latest_by_description g ?db' ?d = Inr (Some (mileage r)) \<longleftrightarrow>
      (\<forall>x\<in>set (matching db ?d). col_mileage x \<le> mileage r)"
    unfolding q by auto
  then show ?thesis using c q by blast
qed

theorem create_record_then_find_latest_witness:
  "int64 (mileage discs_record) \<and> encodable (type' discs_record) \<and>
   encodable (service_description discs_record) \<and> mileage discs_record = 10000 \<and>
   (\<exists>rid db'. create_record no_faults discs_db discs_record = (Inr rid, db') \<and>
      find_latest_by_description no_faults db' (service_description discs_record) =
        Inr (Some 50000))"
proof -
  have h1: "\<forall>k<3. no_faults k = None" and h2: "\<forall>k<2. no_faults k = None"
    by (simp_all add: no_faults_def)
  have h3: "int64 (mileage discs_record)"
    by (simp add: discs_record_def int64_def)
  have h4: "encodable (type' discs_record)"
    by (simp add: discs_record_def planned_service_def encodable_def)
  have h5: "encodable (service_description discs_record)"
    by (simp add: discs_record_def brake_discs_def Zamena_def encodable_def)
  have M: "Max (insert (mileage discs_record)
       (col_mileage ` set (matching discs_db (service_description discs_record)))) = 50000"
    by (simp add: discs_record_def discs_db_def matching_def)
  show ?thesis
    using create_record_then_find_latest [OF h1 h2 h3 h4 h5, of discs_db] h3 h4 h5
    unfolding M by (auto simp: discs_record_def)
qed

text \<open>
  C2 as stated fails: with brake discs stored at 50000 km, appending a brake-discs
  record of 10000 km is followed by a lookup that returns 50000.
\<close>

theorem create_record_then_find_latest_counterexample:
  "mileage discs_record = 10000 \<and>
   fst (create_record no_faults discs_db discs_record) = Inr 2 \<and>
   find_latest_by_description no_faults (snd (create_record no_faults discs_db discs_record))
     (service_description discs_record) = Inr (Some 50000)"
  by (simp add: create_record_def CREATE_RECORD_SQL_def find_latest_by_description_def
      GET_LAST_SERVICE_SQL_def no_faults_def discs_db_def discs_record_def int64_def
      encodable_isoformat) (simp add: encodable_def planned_service_def brake_discs_def Zamena_def)

text \<open>
  C3, amended. If no record of the unscheduled-repair category has a description of the
  catalog, then removing all records of that category leaves the result of the
  evaluation unchanged, and no lookup of a task selects such a record. The lookup
  compares descriptions only.
\<close>

theorem repairs_off_catalog_never_selected:
  assumes "\<forall>r\<in>set (logs db). col_type r = unplanned_repair \<longrightarrow>
      col_description r \<notin> (\<lambda>t. fst (snd t)) ` set PLANNED_WORK_WITH_PERIOD"
  shows "fst (check_necessary_service f
            (db\<lparr>logs := filter (\<lambda>r. col_type r \<noteq> unplanned_repair) (logs db)\<rparr>)
            current_mileage) =
         fst (check_necessary_service f db current_mileage) \<and>
     (\<forall>t\<in>set PLANNED_WORK_WITH_PERIOD. \<forall>r\<in>set (matching db (fst (snd t))).
        col_type r \<noteq> unplanned_repair)"
proof
  let ?db = "db\<lparr>logs := filter (\<lambda>r. col_type r \<noteq> unplanned_repair) (logs db)\<rparr>"
  have sel: "\<forall>t\<in>set PLANNED_WORK_WITH_PERIOD. \<forall>r\<in>set (matching db (fst (snd t))).
        col_type r \<noteq> unplanned_repair"
    using assms by (auto simp: matching_def)
  show "\<forall>t\<in>set PLANNED_WORK_WITH_PERIOD. \<forall>r\<in>set (matching db (fst (snd t))).
        col_type r \<noteq> unplanned_repair"
    by (rule sel)
  have "\<forall>t\<in>set PLANNED_WORK_WITH_PERIOD. matching ?db (fst (snd t)) = matching db (fst (snd t))"
  proof
    fix t assume t: "t \<in> set PLANNED_WORK_WITH_PERIOD"
    have "matching ?db (fst (snd t)) =
        filter (\<lambda>r. col_type r \<noteq> unplanned_repair) (matching db (fst (snd t)))"
      by (simp add: matching_def conj_commute)
    also have "\<dots> = matching db (fst (snd t))"
      using sel t by (intro filter_True) blast
    finally show "matching ?db (fst (snd t)) = matching db (fst (snd t))" .
  qed
  then have "due_entries ?db current_mileage = due_entries db current_mileage"
    by (rule due_entries_cong)
  then show "fst (check_necessary_service f ?db current_mileage) =
         fst (check_necessary_service f db current_mileage)"
    by (simp add: check_necessary_service_eq split: option.splits)
qed

theorem repairs_off_catalog_never_selected_witness:
  "map col_type (logs tyres_db) = [unplanned_repair] \<and>
   fst (check_necessary_service no_faults (tyres_db\<lparr>logs := []\<rparr>) 13500) =
   fst (check_necessary_service no_faults tyres_db 13500)"
proof -
  have h: "\<forall>r\<in>set (logs tyres_db). col_type r = unplanned_repair \<longrightarrow>
      col_description r \<notin> (\<lambda>t. fst (snd t)) ` set PLANNED_WORK_WITH_PERIOD"
    by (simp add: tyres_db_def PLANNED_WORK_WITH_PERIOD_def engine_oil_def oil_filter_def
        brake_discs_def Zamena_def)
  have l: "filter (\<lambda>r. col_type r \<noteq> unplanned_repair) (logs tyres_db) = []"
    by (simp add: tyres_db_def)
  show ?thesis
    using repairs_off_catalog_never_selected [OF h, of no_faults 13500]
    unfolding l by (simp add: tyres_db_def)
qed

text \<open>
  C3 as stated fails: an unscheduled repair at 100000 km whose free text equals the
  description of the engine oil change is selected by that task's lookup; with it the
  task is not in the result at 13500 km, without it the task is.
\<close>

theorem repair_record_selected_counterexample:
  "map col_type (logs repair_db) = [unplanned_repair] \<and>
   fst (check_necessary_service no_faults repair_db 13500) = Inr [(oil_filter, 0, 15000)] \<and>
   fst (check_necessary_service no_faults (repair_db\<lparr>logs := []\<rparr>) 13500) =
     Inr [(engine_oil, 0, 15000), (oil_filter, 0, 15000)]"
proof -
  have "repair_db\<lparr>logs := []\<rparr> = empty_db\<lparr>last_id := 1\<rparr>"
    by (simp add: repair_db_def empty_db_def)
  moreover have "due_entries (empty_db\<lparr>last_id := 1\<rparr>) 13500 = due_entries empty_db 13500"
    by (rule due_entries_cong) (simp add: matching_def)
  ultimately show ?thesis
    by (simp add: check_necessary_service_eq first_fault_no_faults due_entries_empty_13500
        due_entries_repair_13500) (simp add: repair_db_def)
qed

text \<open>
  C4, amended. \<open>create_record\<close> validates nothing: on a connection without faults,
  every record whose mileage fits 64 bits and whose texts are encodable is stored as a
  new row with the values it carries, a negative mileage or an empty description
  included.
\<close>

theorem create_record_stores_unvalidated:
  assumes "\<forall>k<3. f k = None"
    and "int64 (mileage r)" and "encodable (type' r)" and "encodable (service_description r)"
  shows "create_record f db r =
     (Inr (last_id db + 1),
      db\<lparr>logs := logs db @
            [\<lparr>col_id = last_id db + 1, col_mileage = mileage r,
              col_date = isoformat (service_date r), col_type = type' r,
              col_description = service_description r\<rparr>],
         last_id := last_id db + 1\<rparr>)"
  using create_record_eq [OF assms] by (simp add: stored_row_def)

theorem create_record_stores_unvalidated_witness:
  "mileage invalid_record < 0 \<and> service_description invalid_record = [] \<and>
   create_record no_faults empty_db invalid_record =
     (Inr 1,
      \<lparr>logs = [\<lparr>col_id = 1, col_mileage = - 5, col_date = isoformat a_day,
                col_type = unplanned_repair, col_description = []\<rparr>],
       last_id = 1\<rparr>)"
proof -
  have h1: "\<forall>k<3. no_faults k = None" by (simp add: no_faults_def)
  have h2: "int64 (mileage invalid_record)"
    by (simp add: invalid_record_def int64_def)
  have h3: "encodable (type' invalid_record)"
    by (simp add: invalid_record_def unplanned_repair_def encodable_def)
  have h4: "encodable (service_description invalid_record)"
    by (simp add: invalid_record_def encodable_def)
  show ?thesis
    using create_record_stores_unvalidated [OF h1 h2 h3 h4, of empty_db]
    by (simp add: invalid_record_def empty_db_def)
qed

text \<open>
  C4 as stated fails: a record with mileage -5 and an empty description is stored, and
  the branch of \<open>main\<close> that adds a record hands exactly this record over when the
  prompts are answered with -5 and an empty text.
\<close>

theorem invalid_record_stored_counterexample:
  "mileage invalid_record = - 5 \<and> service_description invalid_record = [] \<and>
   create_record no_faults empty_db invalid_record =
     (Inr 1,
      \<lparr>logs = [\<lparr>col_id = 1, col_mileage = - 5, col_date = isoformat a_day,
                col_type = unplanned_repair, col_description = []\<rparr>],
       last_id = 1\<rparr>) \<and>
   add_record no_faults empty_db a_day (- 5) 1 0 [] =
     create_record no_faults empty_db invalid_record"
proof -
  have h1: "\<forall>k<3. no_faults k = None" by (simp add: no_faults_def)
  have h2: "int64 (mileage invalid_record)"
    by (simp add: invalid_record_def int64_def)
  have h3: "encodable (type' invalid_record)"
    by (simp add: invalid_record_def unplanned_repair_def encodable_def)
  have h4: "encodable (service_description invalid_record)"
    by (simp add: invalid_record_def encodable_def)
  have c: "create_record no_faults empty_db invalid_record =
     (Inr 1,
      \<lparr>logs = [\<lparr>col_id = 1, col_mileage = - 5, col_date = isoformat a_day,
                col_type = unplanned_repair, col_description = []\<rparr>],
       last_id = 1\<rparr>)"
    using create_record_eq [OF h1 h2 h3 h4, of empty_db]
    by (simp add: invalid_record_def empty_db_def stored_row_def)
  have n: "new_record a_day (- 5) 1 0 [] = Inr invalid_record"
    by (simp add: new_record_def getitem_def SERVICE_TYPE_def generate_null_record_def
        invalid_record_def)
  have a: "add_record no_faults empty_db a_day (- 5) 1 0 [] =
     create_record no_faults empty_db invalid_record"
    unfolding add_record_def n by simp
  show ?thesis using c a by (simp add: invalid_record_def)
qed

text \<open>
  C5. For every task of the catalog the period is positive and the tolerance
  \<open>int(period * 0.1)\<close> that the evaluation uses is exactly the integer tenth of the
  period, \<open>period div 10\<close>; the same holds for every interval from 0 up to \<open>2 ^ 51\<close>,
  should the catalog be given other tasks.
\<close>

theorem admission_is_tenth_of_period:
  "((work_id, work_desc, period) \<in> set PLANNED_WORK_WITH_PERIOD \<longrightarrow>
      0 < period \<and> admission period = Inr (period div 10)) \<and>
   (0 \<le> interval \<and> interval < 2 ^ 51 \<longrightarrow> admission interval = Inr (interval div 10))"
  using admission_PLANNED positive_PLANNED admission_tenth by fastforce

theorem admission_is_tenth_of_period_witness:
  "(0, engine_oil, 15000) \<in> set PLANNED_WORK_WITH_PERIOD \<and> admission 15000 = Inr 1500 \<and>
   admission 2251799813685247 = Inr 225179981368524"
proof -
  have h: "(0, engine_oil, 15000) \<in> set PLANNED_WORK_WITH_PERIOD"
    by (simp add: PLANNED_WORK_WITH_PERIOD_def)
  show ?thesis
    using admission_is_tenth_of_period [of 0 engine_oil 15000 2251799813685247] h by simp
qed

text \<open>
  C6. Monotonicity: on the same database and connection, if the evaluation at \<open>m1\<close>
  returns a mapping and \<open>m1 \<le> m2\<close>, the evaluation at \<open>m2\<close> returns a mapping that
  has every entry, and so every task, of the first.
\<close>

theorem due_set_monotone:
  assumes "m1 \<le> m2"
    and "check_necessary_service f db m1 = (Inr r1, db1)"
  shows "\<exists>r2. check_necessary_service f db m2 = (Inr r2, db1) \<and>
     set r1 \<subseteq> set r2 \<and> fst ` set r1 \<subseteq> fst ` set r2"
proof -
  have a: "first_fault f 0 13 = None" "r1 = due_entries db m1" "db1 = db"
    using check_necessary_service_Inr [OF assms(2)] by simp_all
  have "check_necessary_service f db m2 = (Inr (due_entries db m2), db1)"
    using a(1,3) by (simp add: check_necessary_service_eq)
  moreover have "set r1 \<subseteq> set (due_entries db m2)"
    unfolding a(2) by (rule due_entries_mono [OF assms(1)])
  ultimately show ?thesis by blast
qed

theorem due_set_monotone_witness:
  "(13500::int) \<le> 20000 \<and>
   check_necessary_service no_faults empty_db 13500 =
     (Inr [(engine_oil, 0, 15000), (oil_filter, 0, 15000)], empty_db) \<and>
   (\<exists>r2. check_necessary_service no_faults empty_db 20000 = (Inr r2, empty_db) \<and>
      {(engine_oil, 0, 15000), (oil_filter, 0, 15000)} \<subseteq> set r2 \<and>
      {engine_oil, oil_filter} \<subseteq> fst ` set r2)"
proof -
  have h1: "(13500::int) \<le> 20000" by simp
  have h2: "check_necessary_service no_faults empty_db 13500 =
     (Inr [(engine_oil, 0, 15000), (oil_filter, 0, 15000)], empty_db)"
    by (simp add: check_necessary_service_eq first_fault_no_faults due_entries_empty_13500)
  show ?thesis
    using due_set_monotone [OF h1 h2] h2 by simp
qed

text \<open>
  C7. Every entry of the returned mapping gets one line of the table that
  \<open>display_service_status\<close> prints, with exactly one status: \<open>Required\<close> (due now) if
  and only if the current mileage has reached \<open>next_service\<close>, and \<open>Soon\<close> (upcoming)
  if and only if it lies in the tolerance band below \<open>next_service\<close>, the band being
  one tenth of the task's period.
\<close>

theorem status_of_included_entry:
  assumes "check_necessary_service f db current_mileage = (Inr service_required, db')"
    and "(work_desc, last_mileage, next_service) \<in> set service_required"
    and "(work_id, work_desc, period) \<in> set PLANNED_WORK_WITH_PERIOD"
  shows "\<exists>st.
     display_service_status f db current_mileage =
       (Inr (Service_table (map (table_row current_mileage) service_required)), db') \<and>
     table_row current_mileage (work_desc, last_mileage, next_service) =
       (work_desc, last_mileage, next_service, current_mileage, st) \<and>
     (st = Required \<longleftrightarrow> current_mileage \<ge> next_service) \<and>
     (st = Soon \<longleftrightarrow>
        next_service - period div 10 \<le> current_mileage \<and> current_mileage < next_service)"
proof -
  have sr: "service_required = due_entries db current_mileage"
    using check_necessary_service_Inr [OF assms(1)] by simp
  have ne: "service_required \<noteq> []" using assms(2) by auto
  have disp: "display_service_status f db current_mileage =
       (Inr (Service_table (map (table_row current_mileage) service_required)), db')"
    using ne by (simp add: display_service_status_def assms(1))
  have low: "current_mileage \<ge> next_service - period div 10"
    using due_entries_member [OF assms(2) [unfolded sr] assms(3)] by simp
  show ?thesis
  proof (cases "current_mileage \<ge> next_service")
    case True
    then show ?thesis using disp low by (simp add: table_row_def)
  next
    case False
    then show ?thesis using disp low by (simp add: table_row_def)
  qed
qed

theorem status_of_included_entry_witness:
  "(0, engine_oil, 15000) \<in> set PLANNED_WORK_WITH_PERIOD \<and>
   display_service_status no_faults empty_db 13500 =
     (Inr (Service_table [(engine_oil, 0, 15000, 13500, Soon), (oil_filter, 0, 15000, 13500, Soon)]),
      empty_db) \<and>
   table_row 13500 (engine_oil, 0, 15000) = (engine_oil, 0, 15000, 13500, Soon)"
proof -
  have h1: "check_necessary_service no_faults empty_db 13500 =
     (Inr [(engine_oil, 0, 15000), (oil_filter, 0, 15000)], empty_db)"
    by (simp add: check_necessary_service_eq first_fault_no_faults due_entries_empty_13500)
  have h2: "(engine_oil, 0, 15000) \<in> set [(engine_oil, 0, 15000), (oil_filter, 0::int, 15000::int)]"
    by simp
  have h3: "(0, engine_oil, 15000) \<in> set PLANNED_WORK_WITH_PERIOD"
    by (simp add: PLANNED_WORK_WITH_PERIOD_def)
  show ?thesis
    using status_of_included_entry [OF h1 h2 h3] h3 by (auto simp: table_row_def)
qed

text \<open>
  C8, amended. If opening the connection or one of the twelve queries fails, the
  evaluation raises the first such error, leaves the store as it was and returns no
  mapping; a mapping that is returned comes from a scan of the whole catalog without
  any fault. \<open>display_service_status\<close> then never prints the panel
  \<open>No_service_panel\<close> or a table: it prints the error line when the error is
  \<open>OperationalError\<close>, and for any other error it prints nothing and the exception
  leaves it.
\<close>

theorem evaluation_fails_as_a_whole:
  "(k < 13 \<and> f k = Some e \<longrightarrow>
      (\<exists>e'. first_fault f 0 13 = Some e' \<and>
            check_necessary_service f db current_mileage = (Inl e', db) \<and>
            display_service_status f db current_mileage =
              (if e' = OperationalError then Inr (Error_line e') else Inl e', db) \<and>
            fst (display_service_status f db current_mileage) \<noteq> Inr No_service_panel)) \<and>
   (check_necessary_service f db current_mileage = (Inr service_required, db') \<longrightarrow>
      (\<forall>k<13. f k = None) \<and> service_required = due_entries db current_mileage)"
proof (intro conjI impI)
  assume "k < 13 \<and> f k = Some e"
  then obtain e' where e': "first_fault f 0 13 = Some e'" using fault_13 by blast
  then have c: "check_necessary_service f db current_mileage = (Inl e', db)"
    by (simp add: check_necessary_service_eq)
  then have d: "display_service_status f db current_mileage =
              (if e' = OperationalError then Inr (Error_line e') else Inl e', db)"
    by (simp add: display_service_status_def)
  then have "fst (display_service_status f db current_mileage) \<noteq> Inr No_service_panel"
    by simp
  then show "\<exists>e'. first_fault f 0 13 = Some e' \<and>
            check_necessary_service f db current_mileage = (Inl e', db) \<and>
            display_service_status f db current_mileage =
              (if e' = OperationalError then Inr (Error_line e') else Inl e', db) \<and>
            fst (display_service_status f db current_mileage) \<noteq> Inr No_service_panel"
    using e' c d by blast
next
  assume a: "check_necessary_service f db current_mileage = (Inr service_required, db')"
  show "\<forall>k<13. f k = None"
    using check_necessary_service_Inr [OF a] by (auto simp: no_fault_13)
next
  assume a: "check_necessary_service f db current_mileage = (Inr service_required, db')"
  show "service_required = due_entries db current_mileage"
    using check_necessary_service_Inr [OF a] by simp
qed

theorem evaluation_fails_as_a_whole_witness:
  "check_necessary_service connect_fails empty_db 13500 = (Inl OperationalError, empty_db) \<and>
   display_service_status connect_fails empty_db 13500 =
     (Inr (Error_line OperationalError), empty_db) \<and>
   (\<exists>e'. check_necessary_service fifth_fails empty_db 13500 = (Inl e', empty_db) \<and>
         display_service_status fifth_fails empty_db 13500 =
           (if e' = OperationalError then Inr (Error_line e') else Inl e', empty_db)) \<and>
   check_necessary_service no_faults empty_db 13500 =
     (Inr [(engine_oil, 0, 15000), (oil_filter, 0, 15000)], empty_db) \<and>
   due_entries empty_db 13500 = [(engine_oil, 0, 15000), (oil_filter, 0, 15000)]"
proof -
  have h0: "(0::nat) < 13 \<and> connect_fails 0 = Some OperationalError"
    by (simp add: connect_fails_def)
  have f0: "first_fault connect_fails 0 13 = Some OperationalError"
    by (simp add: first_fault_connect connect_fails_def)
  have h1: "(5::nat) < 13 \<and> fifth_fails 5 = Some DatabaseError"
    by (simp add: fifth_fails_def)
  have h2: "check_necessary_service no_faults empty_db 13500 =
     (Inr [(engine_oil, 0, 15000), (oil_filter, 0, 15000)], empty_db)"
    by (simp add: check_necessary_service_eq first_fault_no_faults due_entries_empty_13500)
  have a: "check_necessary_service connect_fails empty_db 13500 =
        (Inl OperationalError, empty_db) \<and>
      display_service_status connect_fails empty_db 13500 =
        (Inr (Error_line OperationalError), empty_db)"
    using evaluation_fails_as_a_whole [of 0 connect_fails OperationalError empty_db 13500]
      h0 f0 by auto
  have b: "\<exists>e'. check_necessary_service fifth_fails empty_db 13500 = (Inl e', empty_db) \<and>
         display_service_status fifth_fails empty_db 13500 =
           (if e' = OperationalError then Inr (Error_line e') else Inl e', empty_db)"
    using evaluation_fails_as_a_whole [of 5 fifth_fails DatabaseError empty_db 13500] h1
    by blast
  have c: "due_entries empty_db 13500 = [(engine_oil, 0, 15000), (oil_filter, 0, 15000)]"
    using evaluation_fails_as_a_whole [of 0 no_faults DatabaseError empty_db 13500
        "[(engine_oil, 0, 15000), (oil_filter, 0, 15000)]" empty_db] h2
    by simp
  show ?thesis using a b c h2 by blast
qed

text \<open>
  C8 as stated fails in its last part: when the fifth call fails with a database error
  other than \<open>OperationalError\<close>, the evaluation raises it and
  \<open>display_service_status\<close> reports nothing; the exception leaves the method.
\<close>

theorem unreported_failure_counterexample:
  "fifth_fails 5 = Some DatabaseError \<and>
   check_necessary_service fifth_fails empty_db 13500 = (Inl DatabaseError, empty_db) \<and>
   display_service_status fifth_fails empty_db 13500 = (Inl DatabaseError, empty_db)"
proof -
  have h: "(5::nat) < 13" "fifth_fails 5 = Some DatabaseError"
    by (simp_all add: fifth_fails_def)
  obtain e' where e': "first_fault fifth_fails 0 13 = Some e'"
    using fault_13 [of 5 fifth_fails DatabaseError] h by blast
  then obtain j where "fifth_fails (0 + j) = Some e'"
    using first_fault_Some by blast
  then have "e' = DatabaseError"
    by (simp add: fifth_fails_def split: if_splits)
  then have c: "check_necessary_service fifth_fails empty_db 13500 =
      (Inl DatabaseError, empty_db)"
    using e' by (simp add: check_necessary_service_eq)
  then have "display_service_status fifth_fails empty_db 13500 =
      (Inl DatabaseError, empty_db)"
    by (simp add: display_service_status_def)
  then show ?thesis using h(2) c by simp
qed

text \<open>
  C9. Two evaluations at the same mileage with nothing appended in between, the second
  on the database the first one left, return identical mappings whenever both return
  one, whatever the fault schedules of the two connections.
\<close>

theorem evaluate_twice_identical:
  assumes "check_necessary_service f1 db current_mileage = (Inr r1, db1)"
    and "check_necessary_service f2 db1 current_mileage = (Inr r2, db2)"
  shows "r1 = r2 \<and> db2 = db"
  using check_necessary_service_Inr [OF assms(1)] check_necessary_service_Inr [OF assms(2)]
  by simp

theorem evaluate_twice_identical_witness:
  "check_necessary_service no_faults empty_db 13500 =
     (Inr [(engine_oil, 0, 15000), (oil_filter, 0, 15000)], empty_db) \<and>
   check_necessary_service late_fault empty_db 13500 =
     (Inr [(engine_oil, 0, 15000), (oil_filter, 0, 15000)], empty_db)"
proof -
  have h1: "check_necessary_service no_faults empty_db 13500 =
     (Inr [(engine_oil, 0, 15000), (oil_filter, 0, 15000)], empty_db)"
    by (simp add: check_necessary_service_eq first_fault_no_faults due_entries_empty_13500)
  have "first_fault late_fault 0 13 = None"
    by (simp add: no_fault_13 late_fault_def)
  then obtain r2 where h2: "check_necessary_service late_fault empty_db 13500 = (Inr r2, empty_db)"
    by (simp add: check_necessary_service_eq)
  show ?thesis
    using evaluate_twice_identical [OF h1 h2] h1 h2 by simp
qed

text \<open>
  C10. \<open>check_necessary_service\<close> is read-only: whatever the faults, the database it
  leaves is the database it was given, so no record is inserted, changed or deleted.
\<close>

theorem check_necessary_service_read_only:
  "snd (check_necessary_service f db current_mileage) = db"
  by (auto simp: check_necessary_service_def split: option.splits sum.splits
      dest: check_loop_database)

end
